theory Spec2Isabelle
  imports Main "HOL-Library.Multiset"
begin

section \<open>promlinter: rules of a Prometheus server checked against its series\<close>

text \<open>
  A shallow embedding of \<^verbatim>\<open>main.go\<close>. The program talks to three libraries: the
  Prometheus HTTP client (\<^verbatim>\<open>api.NewClient\<close>, \<^verbatim>\<open>Rules\<close>, \<^verbatim>\<open>Series\<close>), the PromQL
  parser (\<^verbatim>\<open>promql.ParseExpr\<close>, \<^verbatim>\<open>promql.Inspect\<close>) and Go's own \<^verbatim>\<open>net/url\<close>,
  \<^verbatim>\<open>time\<close> and map iteration. Their results are the fields of an environment record;
  the functions of \<^verbatim>\<open>main.go\<close> are translated over that record, with the backend's
  state and everything the program does to the outside (calls, lines on stderr) threaded
  through explicitly.
\<close>

subsection \<open>Errors\<close>

text \<open>
  Error values as \<^verbatim>\<open>github.com/pkg/errors\<close> builds them. A format string is kept
  with its arguments, unformatted. \<open>Foreign\<close> is an error made by a library.
\<close>

datatype error =
    New string
  | Errorf string "string list"
  | Wrap error string
  | Wrapf error string "string list"
  | Foreign string

subsection \<open>The backend's data\<close>

text \<open>
  The elements of \<^verbatim>\<open>RuleGroup.Rules\<close> are \<^verbatim>\<open>interface{}\<close> values: a
  \<^verbatim>\<open>v1.RecordingRule\<close>, a \<^verbatim>\<open>v1.AlertingRule\<close> (each with its name and its query),
  or a value of any other type, named by a tag.
\<close>

datatype Rule =
    RecordingRule string string
  | AlertingRule string string
  | OtherRule string

record RuleGroup =
  group_Name :: string
  group_Rules :: "Rule list"

record RulesResult =
  Groups :: "RuleGroup list"

type_synonym LabelSet = "(string \<times> string) list"

text \<open>
  An instant, in nanoseconds from the zero value \<^verbatim>\<open>time.Time{}\<close>.
\<close>

type_synonym Time = int

definition Time_zero :: Time where
  "Time_zero = 0"

record URL =
  Scheme :: string
  Rest :: string

subsection \<open>The query expression tree\<close>

text \<open>
  Modelled from the spec: the node types of the PromQL library (package
  \<^verbatim>\<open>promql\<close>), which is not part of this repository. The spec names the kinds of
  node the traversal meets: binary operators, function calls, aggregations, sub-queries,
  and the instantaneous and range selectors, each selector with an optional positional
  name and its label matchers. Only what the traversal and the callback read is kept:
  the children, the selectors' \<^verbatim>\<open>Name\<close> and their matchers.
\<close>

datatype MatchType = MatchEqual | MatchNotEqual | MatchRegexp | MatchNotRegexp

datatype Matcher = Matcher MatchType string string

datatype Node =
    AggregateExpr Node "Node option"
  | BinaryExpr Node Node
  | Call string "Node list"
  | MatrixSelector string "Matcher list"
  | NumberLiteral
  | ParenExpr Node
  | StringLiteral string
  | SubqueryExpr Node
  | UnaryExpr Node
  | VectorSelector string "Matcher list"

text \<open>
  Modelled from the spec: \<^verbatim>\<open>promql.Inspect\<close>, the library's generic traversal. It
  calls \<open>f\<close> on the node and the path that leads to it, then walks the node's children
  from left to right, and stops at the first error \<open>f\<close> returns. \<open>f\<close> works on a
  state of type \<open>'a\<close> (what the Go closure captures).
\<close>

fun Walk :: "(Node \<Rightarrow> Node list \<Rightarrow> 'a \<Rightarrow> error option \<times> 'a) \<Rightarrow> Node \<Rightarrow> Node list \<Rightarrow> 'a
    \<Rightarrow> error option \<times> 'a"
  and Walk_children :: "(Node \<Rightarrow> Node list \<Rightarrow> 'a \<Rightarrow> error option \<times> 'a) \<Rightarrow> Node list
    \<Rightarrow> Node list \<Rightarrow> 'a \<Rightarrow> error option \<times> 'a" where
  "Walk f node path a =
     (case f node path a of
        (Some err, a') \<Rightarrow> (Some err, a')
      | (None, a') \<Rightarrow>
          (case node of
             AggregateExpr e None \<Rightarrow> Walk f e (path @ [node]) a'
           | AggregateExpr e (Some p) \<Rightarrow>
               (case Walk f p (path @ [node]) a' of
                  (Some err, a'') \<Rightarrow> (Some err, a'')
                | (None, a'') \<Rightarrow> Walk f e (path @ [node]) a'')
           | BinaryExpr l r \<Rightarrow>
               (case Walk f l (path @ [node]) a' of
                  (Some err, a'') \<Rightarrow> (Some err, a'')
                | (None, a'') \<Rightarrow> Walk f r (path @ [node]) a'')
           | Call fn args \<Rightarrow> Walk_children f args (path @ [node]) a'
           | ParenExpr e \<Rightarrow> Walk f e (path @ [node]) a'
           | SubqueryExpr e \<Rightarrow> Walk f e (path @ [node]) a'
           | UnaryExpr e \<Rightarrow> Walk f e (path @ [node]) a'
           | _ \<Rightarrow> (None, a')))"
| "Walk_children f [] path a = (None, a)"
| "Walk_children f (e # es) path a =
     (case Walk f e path a of
        (Some err, a') \<Rightarrow> (Some err, a')
      | (None, a') \<Rightarrow> Walk_children f es path a')"

definition Inspect :: "Node \<Rightarrow> (Node \<Rightarrow> Node list \<Rightarrow> 'a \<Rightarrow> error option \<times> 'a) \<Rightarrow> 'a \<Rightarrow> 'a" where
  "Inspect node f a = snd (Walk f node [] a)"

text \<open>
  Every node of a tree, the root first: the tree's own structure, with no visitor.
\<close>

fun nodes :: "Node \<Rightarrow> Node list" where
  "nodes (AggregateExpr e None) = AggregateExpr e None # nodes e"
| "nodes (AggregateExpr e (Some p)) = AggregateExpr e (Some p) # nodes p @ nodes e"
| "nodes (BinaryExpr l r) = BinaryExpr l r # nodes l @ nodes r"
| "nodes (Call fn args) = Call fn args # concat (map nodes args)"
| "nodes (ParenExpr e) = ParenExpr e # nodes e"
| "nodes (SubqueryExpr e) = SubqueryExpr e # nodes e"
| "nodes (UnaryExpr e) = UnaryExpr e # nodes e"
| "nodes n = [n]"

text \<open>
  The positional name of a selector node; \<open>None\<close> for every other kind of node.
\<close>

fun selector_name :: "Node \<Rightarrow> string option" where
  "selector_name (VectorSelector name ms) = Some name"
| "selector_name (MatrixSelector name ms) = Some name"
| "selector_name n = None"

subsection \<open>The outside of the program\<close>

text \<open>
  What the program does to the outside, in order: the calls it sends to the backend,
  each with the answer it got, and what it writes to stderr.
\<close>

datatype event =
    CallRules
  | CallSeries "string list" Time Time "error + LabelSet list"
  | Fprintln error
  | Fprintln_text string
  | PrintDefaults
  | Fprintf string "string list"

text \<open>
  The libraries, over a state \<open>'w\<close> of the world (the backend and the clock).
  \<open>MapOrder\<close> is the order in which Go's runtime walks the keys of a map in a
  \<^verbatim>\<open>range\<close> loop: the language leaves it open, so it is the environment's choice, a
  rank for every key.
\<close>

record 'w env =
  url_Parse :: "string \<Rightarrow> error + URL"
  NewClient :: "string \<Rightarrow> error option"
  api_Rules :: "'w \<Rightarrow> (error + RulesResult) \<times> 'w"
  api_Series :: "string list \<Rightarrow> Time \<Rightarrow> Time \<Rightarrow> 'w \<Rightarrow> (error + LabelSet list) \<times> 'w"
  time_Now :: "'w \<Rightarrow> Time"
  ParseExpr :: "string \<Rightarrow> error + Node"
  MapOrder :: "'w \<Rightarrow> string \<Rightarrow> nat"

text \<open>
  The state of a run: the linter's cache \<^verbatim>\<open>ruleLinter.metrics\<close>, the world, and the
  events so far.
\<close>

record 'w state =
  metrics :: "string \<rightharpoonup> bool"
  world :: "'w"
  trace :: "event list"

definition start :: "'w \<Rightarrow> 'w state" where
  "start w = \<lparr>metrics = Map.empty, world = w, trace = []\<rparr>"

definition emit :: "event \<Rightarrow> 'w state \<Rightarrow> 'w state" where
  "emit e s = s\<lparr>trace := trace s @ [e]\<rparr>"

subsection \<open>newRuleLinter and getRules\<close>

definition newRuleLinter :: "'w env \<Rightarrow> string \<Rightarrow> 'w state \<Rightarrow> error + 'w state" where
  "newRuleLinter env promURL s =
     (case NewClient env promURL of
        Some err \<Rightarrow> Inl err
      | None \<Rightarrow> Inr (s\<lparr>metrics := Map.empty\<rparr>))"

text \<open>The inner loop of \<^verbatim>\<open>getRules\<close>, over the rules of one group.\<close>

fun getRules_rules :: "Rule list \<Rightarrow> string list \<Rightarrow> string list" where
  "getRules_rules [] queries = queries"
| "getRules_rules (rule # rest) queries =
     getRules_rules rest
       (case rule of
          RecordingRule name query \<Rightarrow> queries @ [query]
        | AlertingRule name query \<Rightarrow> queries @ [query]
        | OtherRule tag \<Rightarrow> queries)"

text \<open>The outer loop of \<^verbatim>\<open>getRules\<close>, over the groups.\<close>

fun getRules_groups :: "RuleGroup list \<Rightarrow> string list \<Rightarrow> string list" where
  "getRules_groups [] queries = queries"
| "getRules_groups (grp # rest) queries =
     getRules_groups rest (getRules_rules (group_Rules grp) queries)"

definition getRules :: "'w env \<Rightarrow> 'w state \<Rightarrow> (error + string list) \<times> 'w state" where
  "getRules env s =
     (case api_Rules env (world s) of
        (Inl err, w') \<Rightarrow>
          (Inl (Wrapf err ''failed to get rules'' []), emit CallRules (s\<lparr>world := w'\<rparr>))
      | (Inr res, w') \<Rightarrow>
          (Inr (getRules_groups (Groups res) []), emit CallRules (s\<lparr>world := w'\<rparr>)))"

subsection \<open>getMetrics\<close>

text \<open>
  The closure that \<^verbatim>\<open>getMetrics\<close> hands to \<^verbatim>\<open>promql.Inspect\<close>. The Go map
  \<^verbatim>\<open>metrics\<close> is a set of keys, held here as a list without repetition.
\<close>

fun visit :: "Node \<Rightarrow> Node list \<Rightarrow> string list \<Rightarrow> error option \<times> string list" where
  "visit (VectorSelector name ms) path keys =
     (if name = [] then (None, keys) else (None, List.insert name keys))"
| "visit (MatrixSelector name ms) path keys =
     (if name = [] then (None, keys) else (None, List.insert name keys))"
| "visit n path keys = (None, keys)"

text \<open>
  \<^verbatim>\<open>for k := range metrics\<close> appends the keys in the order the runtime walks them.
\<close>

definition range_keys :: "(string \<Rightarrow> nat) \<Rightarrow> string list \<Rightarrow> string list" where
  "range_keys rank keys = sort_key rank keys"

definition getMetrics :: "'w env \<Rightarrow> string \<Rightarrow> 'w \<Rightarrow> error + string list" where
  "getMetrics env rule w =
     (case ParseExpr env rule of
        Inl err \<Rightarrow> Inl err
      | Inr expr \<Rightarrow> Inr (range_keys (MapOrder env w) (Inspect expr visit [])))"

subsection \<open>metricExists\<close>

text \<open>Reading a Go map at a key it does not hold gives the zero value.\<close>

definition index :: "(string \<rightharpoonup> bool) \<Rightarrow> string \<Rightarrow> bool" where
  "index m k = (case m k of Some v \<Rightarrow> v | None \<Rightarrow> False)"

definition metricExists :: "'w env \<Rightarrow> string \<Rightarrow> 'w state \<Rightarrow> (error + bool) \<times> 'w state" where
  "metricExists env name s =
     (if metrics s name = None then
        (let now = time_Now env (world s) in
         case api_Series env [name] Time_zero now (world s) of
           (Inl err, w') \<Rightarrow>
             (Inl (Wrapf err ''failed to get metric %q'' [name]),
              emit (CallSeries [name] Time_zero now (Inl err)) (s\<lparr>world := w'\<rparr>))
         | (Inr lset, w') \<Rightarrow>
             (let s' = emit (CallSeries [name] Time_zero now (Inr lset)) (s\<lparr>world := w'\<rparr>);
                  s'' = s'\<lparr>metrics := (metrics s')(name \<mapsto> 0 < length lset)\<rparr>
              in (Inr (index (metrics s'') name), s'')))
      else (Inr (index (metrics s) name), s))"

subsection \<open>run and main\<close>

definition not_found_format :: string where
  "not_found_format = ''rule %q: metric %q not found!\<newline>''"

text \<open>The inner loop of \<^verbatim>\<open>run\<close>, over the metrics of one rule.\<close>

fun run_metrics :: "'w env \<Rightarrow> string \<Rightarrow> string list \<Rightarrow> 'w state \<Rightarrow> 'w state" where
  "run_metrics env rule [] s = s"
| "run_metrics env rule (metric # rest) s =
     (case metricExists env metric s of
        (Inl err, s') \<Rightarrow> run_metrics env rule rest (emit (Fprintln err) s')
      | (Inr found, s') \<Rightarrow>
          run_metrics env rule rest
            (if \<not> found then emit (Fprintf not_found_format [rule, metric]) s' else s'))"

text \<open>The body of the outer loop of \<^verbatim>\<open>run\<close>: one rule.\<close>

definition run_rule :: "'w env \<Rightarrow> string \<Rightarrow> 'w state \<Rightarrow> 'w state" where
  "run_rule env rule s =
     (case getMetrics env rule (world s) of
        Inl err \<Rightarrow> emit (Fprintln err) s
      | Inr ms \<Rightarrow> run_metrics env rule ms s)"

fun run_rules :: "'w env \<Rightarrow> string list \<Rightarrow> 'w state \<Rightarrow> 'w state" where
  "run_rules env [] s = s"
| "run_rules env (rule # rest) s = run_rules env rest (run_rule env rule s)"

definition run :: "'w env \<Rightarrow> string \<Rightarrow> 'w \<Rightarrow> error option \<times> 'w state" where
  "run env promURL w =
     (if promURL = [] then (Some (New ''Missing -url parameter''), start w)
      else
        (case url_Parse env promURL of
           Inl err \<Rightarrow> (Some (Wrap err ''Invalid URL''), start w)
         | Inr u \<Rightarrow>
             (if Scheme u \<noteq> ''http'' \<and> Scheme u \<noteq> ''https''
              then (Some (Errorf ''Invalid URL scheme: %s'' [Scheme u]), start w)
              else
                (case newRuleLinter env promURL (start w) of
                   Inl err \<Rightarrow> (Some err, start w)
                 | Inr linter \<Rightarrow>
                     (case getRules env linter of
                        (Inl err, s) \<Rightarrow> (Some err, s)
                      | (Inr rules, s) \<Rightarrow> (None, run_rules env rules s))))))"

text \<open>
  \<^verbatim>\<open>main\<close>, with the two flags as arguments; the result is the exit status.
\<close>

definition main :: "'w env \<Rightarrow> bool \<Rightarrow> string \<Rightarrow> 'w \<Rightarrow> nat \<times> 'w state" where
  "main env help promURL w =
     (if help
      then (0, emit PrintDefaults (emit (Fprintln_text ''Prometheus rules linter'') (start w)))
      else
        (case run env promURL w of
           (Some err, s) \<Rightarrow> (2, emit (Fprintln err) s)
         | (None, s) \<Rightarrow> (0, s)))"

subsection \<open>What the claims speak of\<close>

text \<open>The query a rule contributes: only recording and alerting rules have one.\<close>

fun rule_query :: "Rule \<Rightarrow> string option" where
  "rule_query (RecordingRule name query) = Some query"
| "rule_query (AlertingRule name query) = Some query"
| "rule_query (OtherRule tag) = None"

text \<open>
  The groups flattened as the spec words it: group after group, and within a group rule
  after rule, each rule that has a query giving that query.
\<close>

definition flatten_queries :: "RuleGroup list \<Rightarrow> string list" where
  "flatten_queries groups =
     concat (map (\<lambda>g. List.map_filter rule_query (group_Rules g)) groups)"

text \<open>What the closure does to the key set at one node; the path plays no part.\<close>

definition add_key :: "Node \<Rightarrow> string list \<Rightarrow> string list" where
  "add_key n keys =
     (case selector_name n of
        Some name \<Rightarrow> if name = [] then keys else List.insert name keys
      | None \<Rightarrow> keys)"

text \<open>The non-empty positional names of the selector nodes of a tree.\<close>

definition metric_names :: "Node \<Rightarrow> string set" where
  "metric_names expr =
     {name. name \<noteq> [] \<and> (\<exists>n \<in> set (nodes expr). selector_name n = Some name)}"

text \<open>
  The backend's answers to the series calls for one name, in the order of the calls:
  \<open>True\<close> for a call that returned series (possibly none), \<open>False\<close> for one that
  failed.
\<close>

fun series_results :: "string \<Rightarrow> event list \<Rightarrow> bool list" where
  "series_results name [] = []"
| "series_results name (CallSeries ms t u (Inr lset) # es) =
     (if ms = [name] then True # series_results name es else series_results name es)"
| "series_results name (CallSeries ms t u (Inl err) # es) =
     (if ms = [name] then False # series_results name es else series_results name es)"
| "series_results name (e # es) = series_results name es"

text \<open>What the run wrote to stderr: the events that are not calls.\<close>

fun is_output :: "event \<Rightarrow> bool" where
  "is_output CallRules = False"
| "is_output (CallSeries ms t u r) = False"
| "is_output e = True"

definition stderr :: "event list \<Rightarrow> event list" where
  "stderr es = filter is_output es"


text \<open>An error with which \<^verbatim>\<open>run\<close> refuses the \<^verbatim>\<open>-url\<close> flag.\<close>

definition is_config_error :: "error \<Rightarrow> bool" where
  "is_config_error err =
     (case err of
        New msg \<Rightarrow> msg = ''Missing -url parameter''
      | Wrap cause msg \<Rightarrow> msg = ''Invalid URL''
      | Errorf fmt args \<Rightarrow> fmt = ''Invalid URL scheme: %s'' \<and> length args = 1
      | _ \<Rightarrow> False)"

subsection \<open>Example environments\<close>

text \<open>
  Concrete libraries on which the theorems are instantiated. The URL parser splits the
  scheme off as Go's \<^verbatim>\<open>net/url\<close> does (letters, then letters, digits and \<^verbatim>\<open>+-.\<close>
  up to the first colon, lower-cased); the query parser is a table of a few queries.
\<close>

definition isAlpha :: "char \<Rightarrow> bool" where
  "isAlpha c =
     (let n = (of_char c :: nat) in (97 \<le> n \<and> n \<le> 122) \<or> (65 \<le> n \<and> n \<le> 90))"

definition isSchemeChar :: "char \<Rightarrow> bool" where
  "isSchemeChar c =
     (let n = (of_char c :: nat) in (48 \<le> n \<and> n \<le> 57) \<or> n = 43 \<or> n = 45 \<or> n = 46)"

definition toLower :: "char \<Rightarrow> char" where
  "toLower c =
     (let n = (of_char c :: nat) in if 65 \<le> n \<and> n \<le> 90 then char_of (n + 32) else c)"

fun getScheme :: "string \<Rightarrow> string \<Rightarrow> error + string \<times> string" where
  "getScheme seen [] = Inr ([], seen)"
| "getScheme seen (c # cs) =
     (if isAlpha c then getScheme (seen @ [c]) cs
      else if isSchemeChar c then
        (if seen = [] then Inr ([], c # cs) else getScheme (seen @ [c]) cs)
      else if c = CHR '':'' then
        (if seen = [] then Inl (Foreign ''missing protocol scheme'') else Inr (seen, cs))
      else Inr ([], seen @ c # cs))"

definition go_url_Parse :: "string \<Rightarrow> error + URL" where
  "go_url_Parse rawURL =
     (case getScheme [] rawURL of
        Inl err \<Rightarrow> Inl err
      | Inr (scheme, rest) \<Rightarrow> Inr \<lparr>Scheme = map toLower scheme, Rest = rest\<rparr>)"

text \<open>The matcher the parser adds to a selector written with a positional name.\<close>

definition named :: "string \<Rightarrow> Matcher list" where
  "named name = [Matcher MatchEqual ''__name__'' name]"

definition demo_ParseExpr :: "string \<Rightarrow> error + Node" where
  "demo_ParseExpr q =
     (if q = ''up == 0''
        then Inr (BinaryExpr (VectorSelector ''up'' (named ''up'')) NumberLiteral)
      else if q = ''rate(http_requests_total[5m])''
        then Inr (Call ''rate''
                    [MatrixSelector ''http_requests_total'' (named ''http_requests_total'')])
      else if q = ''sum(errors) / sum(errors offset 1h)''
        then Inr (BinaryExpr
                    (AggregateExpr (VectorSelector ''errors'' (named ''errors'')) None)
                    (AggregateExpr (VectorSelector ''errors'' (named ''errors'')) None))
      else if q = ''{__name__='jobs'} > queue[5m:1m]''
        then Inr (BinaryExpr (VectorSelector [] (named ''jobs''))
                    (SubqueryExpr (VectorSelector ''queue'' (named ''queue''))))
      else if q = ''flaky + errors''
        then Inr (BinaryExpr (VectorSelector ''flaky'' (named ''flaky''))
                    (VectorSelector ''errors'' (named ''errors'')))
      else if q = ''absent(flaky)''
        then Inr (Call ''absent'' [VectorSelector ''flaky'' (named ''flaky'')])
      else Inl (Foreign ''parse error''))"

text \<open>
  A backend whose answer depends on the name alone: \<^verbatim>\<open>up\<close> has a series, a call
  for \<^verbatim>\<open>flaky\<close> fails, every other name has no series. The world counts the calls.
\<close>

definition steady_answer :: "string list \<Rightarrow> error + LabelSet list" where
  "steady_answer ms =
     (if ms = [''up''] then Inr [[(''__name__'', ''up''), (''job'', ''node'')]]
      else if ms = [''flaky''] then Inl (Foreign ''connection refused'')
      else Inr [])"

definition steady_Series :: "string list \<Rightarrow> Time \<Rightarrow> Time \<Rightarrow> nat \<Rightarrow> (error + LabelSet list) \<times> nat" where
  "steady_Series ms t u w = (steady_answer ms, Suc w)"

text \<open>
  A backend with a passing fault: its first call for \<^verbatim>\<open>flaky\<close> fails when no call
  has been answered yet, and later ones find a series.
\<close>

definition flaky_Series :: "string list \<Rightarrow> Time \<Rightarrow> Time \<Rightarrow> nat \<Rightarrow> (error + LabelSet list) \<times> nat" where
  "flaky_Series ms t u w =
     (if ms = [''flaky''] \<and> 0 < w then (Inr [[(''__name__'', ''flaky'')]], Suc w)
      else (steady_answer ms, Suc w))"

definition demo_env :: "RuleGroup list
    \<Rightarrow> (string list \<Rightarrow> Time \<Rightarrow> Time \<Rightarrow> nat \<Rightarrow> (error + LabelSet list) \<times> nat)
    \<Rightarrow> (string \<Rightarrow> nat) \<Rightarrow> nat env" where
  "demo_env groups series rank =
     \<lparr>url_Parse = go_url_Parse,
      NewClient = (\<lambda>address. None),
      api_Rules = (\<lambda>w. (Inr \<lparr>Groups = groups\<rparr>, w)),
      api_Series = series,
      time_Now = (\<lambda>w. 1000 + int w),
      ParseExpr = demo_ParseExpr,
      MapOrder = (\<lambda>w. rank)\<rparr>"

definition demo_groups :: "RuleGroup list" where
  "demo_groups =
     [\<lparr>group_Name = ''node'', group_Rules =
         [AlertingRule ''Down'' ''up == 0'',
          OtherRule ''comment'',
          RecordingRule ''job:errors'' ''sum(errors) / sum(errors offset 1h)'']\<rparr>,
      \<lparr>group_Name = ''empty'', group_Rules = []\<rparr>,
      \<lparr>group_Name = ''web'', group_Rules =
         [RecordingRule ''job:rate'' ''rate(http_requests_total[5m])'',
          AlertingRule ''Broken'' ''rate(http_requests_total[5m'',
          AlertingRule ''Flaky'' ''flaky + errors'',
          AlertingRule ''Gone'' ''absent(flaky)'']\<rparr>]"

definition by_name :: "string \<Rightarrow> nat" where
  "by_name k = (if k = ''flaky'' then 0 else 1)"

definition by_name_rev :: "string \<Rightarrow> nat" where
  "by_name_rev k = (if k = ''flaky'' then 1 else 0)"

definition two_flaky_rules :: "RuleGroup list" where
  "two_flaky_rules =
     [\<lparr>group_Name = ''web'', group_Rules =
         [AlertingRule ''Flaky'' ''flaky + errors'',
          AlertingRule ''Gone'' ''absent(flaky)'']\<rparr>]"


definition shared_rules :: "RuleGroup list" where
  "shared_rules =
     [\<lparr>group_Name = ''web'', group_Rules =
         [RecordingRule ''job:errors'' ''sum(errors) / sum(errors offset 1h)'',
          AlertingRule ''Flaky'' ''flaky + errors'',
          AlertingRule ''Gone'' ''absent(flaky)'']\<rparr>]"


text \<open>
  A backend that never has a series for any name, and whose call fails when it is the
  first call and asks for \<^verbatim>\<open>flaky\<close>.
\<close>

definition lost_Series :: "string list \<Rightarrow> Time \<Rightarrow> Time \<Rightarrow> nat \<Rightarrow> (error + LabelSet list) \<times> nat" where
  "lost_Series ms t u w =
     (if ms = [''flaky''] \<and> w = 0 then (Inl (Foreign ''timeout''), Suc w)
      else (Inr [], Suc w))"

subsection \<open>Invariants of a run\<close>

text \<open>
  The cache and the calls agree: of the series calls for one name only the last can have
  succeeded, and none has succeeded for a name the cache does not hold.
\<close>

definition cache_inv :: "'w state \<Rightarrow> bool" where
  "cache_inv s =
     (\<forall>name. True \<notin> set (butlast (series_results name (trace s)))
           \<and> (metrics s name = None \<longrightarrow> True \<notin> set (series_results name (trace s))))"

text \<open>
  The calls for one name after \<open>j\<close> checks of it: while the cache does not hold the
  name, every check was a call and failed; once it does, the calls are failed ones and a
  last, successful one, and they are no more than the checks.
\<close>

definition calls_inv :: "nat \<Rightarrow> string \<Rightarrow> 'w state \<Rightarrow> bool" where
  "calls_inv j name s =
     (case metrics s name of
        None \<Rightarrow> series_results name (trace s) = replicate j False
      | Some v \<Rightarrow> (\<exists>i<j. series_results name (trace s) = replicate i False @ [True]))"




subsection \<open>Runs against a backend whose answers are fixed\<close>






text \<open>
  The error with which \<^verbatim>\<open>run\<close> stops before the listing, if any, and the state in which
  the loop over the rules starts.
\<close>

definition run_setup :: "'w env \<Rightarrow> string \<Rightarrow> error option" where
  "run_setup env promURL =
     (if promURL = [] then Some (New ''Missing -url parameter'')
      else
        (case url_Parse env promURL of
           Inl err \<Rightarrow> Some (Wrap err ''Invalid URL'')
         | Inr u \<Rightarrow>
             (if Scheme u \<noteq> ''http'' \<and> Scheme u \<noteq> ''https''
              then Some (Errorf ''Invalid URL scheme: %s'' [Scheme u])
              else NewClient env promURL)))"

definition listed :: "'w \<Rightarrow> 'w state" where
  "listed w = emit CallRules ((start w)\<lparr>metrics := Map.empty\<rparr>)"

text \<open>A rule parses and one of its selectors has the positional name.\<close>

definition references :: "'w env \<Rightarrow> string \<Rightarrow> string \<Rightarrow> bool" where
  "references env rule name =
     (case ParseExpr env rule of
        Inl err \<Rightarrow> False
      | Inr expr \<Rightarrow> name \<in> metric_names expr)"

text \<open>A line that reports the metric as not found, for whatever rule.\<close>

fun finding_of :: "string \<Rightarrow> event \<Rightarrow> bool" where
  "finding_of name (Fprintf fmt [rule, m]) = (fmt = not_found_format \<and> m = name)"
| "finding_of name e = False"



section \<open>Properties\<close>

declare Walk.simps [simp del]

lemma trace_emit: "trace (emit e s) = trace s @ [e]"
  by (simp add: emit_def)

lemmas demo_defs = demo_env_def go_url_Parse_def isAlpha_def isSchemeChar_def toLower_def
  demo_ParseExpr_def steady_Series_def steady_answer_def flaky_Series_def lost_Series_def
  named_def by_name_def by_name_rev_def

lemmas run_defs = run_def newRuleLinter_def getRules_def run_rule_def getMetrics_def
  metricExists_def range_keys_def Inspect_def Walk.simps emit_def start_def index_def
  Let_def stderr_def

subsection \<open>The traversal\<close>

lemma visit_add_key: "visit n path keys = (None, add_key n keys)"
  by (cases n) (simp_all add: add_key_def)

lemma Walk_visit:
  "Walk visit n path keys = (None, fold add_key (nodes n) keys)"
  "Walk_children visit ns path keys = (None, fold add_key (concat (map nodes ns)) keys)"
proof (induction visit n path keys and visit ns path keys rule: Walk_Walk_children.induct)
  case (1 node path a)
  then show ?case
    by (subst Walk.simps) (auto simp: visit_add_key split: Node.splits option.splits)
next
  case (2 path a)
  show ?case by simp
next
  case (3 e es path a)
  then show ?case by simp
qed

lemma set_fold_add_key:
  "set (fold add_key ns keys) =
     set keys \<union> {name. name \<noteq> [] \<and> (\<exists>n \<in> set ns. selector_name n = Some name)}"
  by (induction ns arbitrary: keys) (auto simp: add_key_def split: option.splits)

lemma distinct_fold_add_key:
  "distinct keys \<Longrightarrow> distinct (fold add_key ns keys)"
  by (induction ns arbitrary: keys) (auto simp: add_key_def split: option.splits)

lemma set_Inspect_visit: "set (Inspect expr visit []) = metric_names expr"
  by (simp add: Inspect_def Walk_visit set_fold_add_key metric_names_def)

lemma distinct_Inspect_visit: "distinct (Inspect expr visit [])"
  by (simp add: Inspect_def Walk_visit distinct_fold_add_key)

lemma getMetrics_parsed:
  assumes "ParseExpr env rule = Inr expr"
  shows "\<exists>ret. getMetrics env rule w = Inr ret \<and> distinct ret \<and> set ret = metric_names expr"
  using assms
  by (simp add: getMetrics_def range_keys_def set_Inspect_visit distinct_Inspect_visit)

text \<open>
  Claim C3. For a query that parses, \<^verbatim>\<open>getMetrics\<close> returns exactly the non-empty
  positional names of the vector and matrix selector nodes of the whole expression tree,
  each once: a selector with an empty positional name adds nothing, and no other kind
  of node adds a name.
\<close>

theorem getMetrics_selector_names:
  assumes "ParseExpr env rule = Inr expr"
  shows "\<exists>ret. getMetrics env rule w = Inr ret \<and> distinct ret \<and>
           set ret = {name. name \<noteq> [] \<and> (\<exists>n \<in> set (nodes expr). selector_name n = Some name)}"
  using getMetrics_parsed [OF assms, of w] by (simp add: metric_names_def)

theorem getMetrics_selector_names_witness:
  "ParseExpr (demo_env [] steady_Series by_name) ''{__name__='jobs'} > queue[5m:1m]''
     = Inr (BinaryExpr (VectorSelector [] (named ''jobs''))
              (SubqueryExpr (VectorSelector ''queue'' (named ''queue''))))
   \<and> (\<exists>ret. getMetrics (demo_env [] steady_Series by_name)
                ''{__name__='jobs'} > queue[5m:1m]'' (0::nat) = Inr ret
            \<and> distinct ret \<and> set ret = {''queue''})"
proof -
  let ?env = "demo_env [] steady_Series by_name"
  let ?expr = "BinaryExpr (VectorSelector [] (named ''jobs''))
                 (SubqueryExpr (VectorSelector ''queue'' (named ''queue'')))"
  have h: "ParseExpr ?env ''{__name__='jobs'} > queue[5m:1m]'' = Inr ?expr"
    by (simp add: demo_env_def demo_ParseExpr_def)
  have n: "{name. name \<noteq> [] \<and> (\<exists>n \<in> set (nodes ?expr). selector_name n = Some name)}
         = {''queue''}"
    by auto
  from getMetrics_selector_names [OF h, of 0] n
  have c: "\<exists>ret. getMetrics ?env ''{__name__='jobs'} > queue[5m:1m]'' (0::nat) = Inr ret
            \<and> distinct ret \<and> set ret = {''queue''}"
    by simp
  show ?thesis by (intro conjI; fact)
qed

text \<open>
  Claim C2. When a query has one or more selectors with the same positional name \<open>M\<close>,
  the list \<^verbatim>\<open>getMetrics\<close> returns holds \<open>M\<close> exactly once, however many they are.
\<close>

theorem getMetrics_once:
  assumes "ParseExpr env rule = Inr expr"
    and "M \<noteq> []"
    and "1 \<le> length (filter (\<lambda>n. selector_name n = Some M) (nodes expr))"
  shows "\<exists>ret. getMetrics env rule w = Inr ret \<and> count_list ret M = 1"
proof -
  from assms(3) have "filter (\<lambda>n. selector_name n = Some M) (nodes expr) \<noteq> []" by auto
  then obtain n where "n \<in> set (nodes expr)" "selector_name n = Some M"
    by (auto simp: filter_empty_conv)
  with assms(2) have M: "M \<in> metric_names expr" by (auto simp: metric_names_def)
  from getMetrics_parsed [OF assms(1), of w] obtain ret where
    ret: "getMetrics env rule w = Inr ret" "distinct ret" "set ret = metric_names expr" by blast
  from ret(2,3) M have "count_list ret M = 1"
    by (metis count_mset distinct_count_atmost_1)
  with ret(1) show ?thesis by blast
qed

theorem getMetrics_once_witness:
  "ParseExpr (demo_env [] steady_Series by_name) ''sum(errors) / sum(errors offset 1h)''
     = Inr (BinaryExpr (AggregateExpr (VectorSelector ''errors'' (named ''errors'')) None)
              (AggregateExpr (VectorSelector ''errors'' (named ''errors'')) None))
   \<and> ''errors'' \<noteq> []
   \<and> length (filter (\<lambda>n. selector_name n = Some ''errors'')
        (nodes (BinaryExpr (AggregateExpr (VectorSelector ''errors'' (named ''errors'')) None)
                  (AggregateExpr (VectorSelector ''errors'' (named ''errors'')) None)))) = 2
   \<and> (\<exists>ret. getMetrics (demo_env [] steady_Series by_name)
                ''sum(errors) / sum(errors offset 1h)'' (0::nat) = Inr ret
            \<and> count_list ret ''errors'' = 1)"
proof -
  let ?env = "demo_env [] steady_Series by_name"
  let ?expr = "BinaryExpr (AggregateExpr (VectorSelector ''errors'' (named ''errors'')) None)
              (AggregateExpr (VectorSelector ''errors'' (named ''errors'')) None)"
  have h1: "ParseExpr ?env ''sum(errors) / sum(errors offset 1h)'' = Inr ?expr"
    by (simp add: demo_env_def demo_ParseExpr_def)
  have h2: "''errors'' \<noteq> []" by simp
  have h3: "length (filter (\<lambda>n. selector_name n = Some ''errors'') (nodes ?expr)) = 2"
    by simp
  then have h3': "1 \<le> length (filter (\<lambda>n. selector_name n = Some ''errors'') (nodes ?expr))"
    by simp
  have c: "\<exists>ret. getMetrics ?env ''sum(errors) / sum(errors offset 1h)'' (0::nat) = Inr ret
            \<and> count_list ret ''errors'' = 1"
    by (rule getMetrics_once [OF h1 h2 h3'])
  show ?thesis by (intro conjI; fact)
qed

subsection \<open>getRules\<close>

lemma getRules_rules_append:
  "getRules_rules rs qs = qs @ List.map_filter rule_query rs"
  by (induction rs arbitrary: qs) (auto simp: List.map_filter_simps split: Rule.splits)

lemma getRules_groups_append:
  "getRules_groups gs qs = qs @ flatten_queries gs"
  by (induction gs arbitrary: qs) (auto simp: flatten_queries_def getRules_rules_append)

text \<open>
  Claim C6. When the listing succeeds, \<^verbatim>\<open>getRules\<close> returns the queries of the recording
  and alerting rules, group after group in the backend's order and rule after rule within
  a group; a rule of another kind is passed over and is no error.
\<close>

theorem getRules_flattens:
  assumes "api_Rules env (world s) = (Inr res, w')"
  shows "fst (getRules env s) = Inr (flatten_queries (Groups res))"
  using assms by (simp add: getRules_def getRules_groups_append)

theorem getRules_flattens_witness:
  "api_Rules (demo_env demo_groups steady_Series by_name) (world (start (0::nat)))
     = (Inr \<lparr>Groups = demo_groups\<rparr>, 0)
   \<and> fst (getRules (demo_env demo_groups steady_Series by_name) (start (0::nat)))
     = Inr [''up == 0'', ''sum(errors) / sum(errors offset 1h)'',
            ''rate(http_requests_total[5m])'', ''rate(http_requests_total[5m'',
            ''flaky + errors'', ''absent(flaky)'']"
proof -
  have h: "api_Rules (demo_env demo_groups steady_Series by_name) (world (start (0::nat)))
     = (Inr \<lparr>Groups = demo_groups\<rparr>, 0)"
    by (simp add: demo_env_def start_def)
  have f: "flatten_queries demo_groups = [''up == 0'', ''sum(errors) / sum(errors offset 1h)'',
            ''rate(http_requests_total[5m])'', ''rate(http_requests_total[5m'',
            ''flaky + errors'', ''absent(flaky)'']"
    by (simp add: flatten_queries_def demo_groups_def List.map_filter_simps)
  show ?thesis using h getRules_flattens [OF h] f by simp
qed

subsection \<open>metricExists\<close>

text \<open>
  Claim C4. When the backend's check of a name fails, \<^verbatim>\<open>metricExists\<close> returns the
  error and leaves the cache as it was; so the next call for that name asks the backend
  again, and if that check succeeds its result is returned and cached.
\<close>

theorem metricExists_failure_not_cached:
  assumes "metrics s name = None"
    and "api_Series env [name] Time_zero (time_Now env (world s)) (world s) = (Inl err, w')"
  shows "fst (metricExists env name s) = Inl (Wrapf err ''failed to get metric %q'' [name])
       \<and> metrics (snd (metricExists env name s)) = metrics s
       \<and> world (snd (metricExists env name s)) = w'
       \<and> (\<forall>lset w''. api_Series env [name] Time_zero (time_Now env w') w' = (Inr lset, w'') \<longrightarrow>
            (let r = metricExists env name (snd (metricExists env name s)) in
               fst r = Inr (lset \<noteq> [])
             \<and> metrics (snd r) = (metrics s)(name \<mapsto> lset \<noteq> [])
             \<and> trace (snd r) =
                 trace s @ [CallSeries [name] Time_zero (time_Now env (world s)) (Inl err),
                            CallSeries [name] Time_zero (time_Now env w') (Inr lset)]))"
  using assms by (auto simp: metricExists_def Let_def emit_def index_def)

theorem metricExists_failure_not_cached_witness:
  "metrics (start (0::nat)) ''flaky'' = None
   \<and> api_Series (demo_env [] flaky_Series by_name) [''flaky''] Time_zero
        (time_Now (demo_env [] flaky_Series by_name) (world (start (0::nat)))) (world (start (0::nat)))
       = (Inl (Foreign ''connection refused''), 1)
   \<and> api_Series (demo_env [] flaky_Series by_name) [''flaky''] Time_zero
        (time_Now (demo_env [] flaky_Series by_name) 1) 1
       = (Inr [[(''__name__'', ''flaky'')]], 2)
   \<and> fst (metricExists (demo_env [] flaky_Series by_name) ''flaky'' (start (0::nat)))
       = Inl (Wrapf (Foreign ''connection refused'') ''failed to get metric %q'' [''flaky''])
   \<and> metrics (snd (metricExists (demo_env [] flaky_Series by_name) ''flaky'' (start (0::nat))))
       = metrics (start (0::nat))
   \<and> fst (metricExists (demo_env [] flaky_Series by_name) ''flaky''
            (snd (metricExists (demo_env [] flaky_Series by_name) ''flaky'' (start (0::nat)))))
       = Inr True
   \<and> metrics (snd (metricExists (demo_env [] flaky_Series by_name) ''flaky''
            (snd (metricExists (demo_env [] flaky_Series by_name) ''flaky'' (start (0::nat))))))
        ''flaky'' = Some True"
proof -
  let ?env = "demo_env [] flaky_Series by_name"
  have h1: "metrics (start (0::nat)) ''flaky'' = None" by (simp add: start_def)
  have h2: "api_Series ?env [''flaky''] Time_zero (time_Now ?env (world (start (0::nat)))) (world (start (0::nat)))
       = (Inl (Foreign ''connection refused''), 1)"
    by (simp add: demo_env_def flaky_Series_def steady_answer_def start_def)
  have h3: "api_Series ?env [''flaky''] Time_zero (time_Now ?env 1) 1
       = (Inr [[(''__name__'', ''flaky'')]], 2)"
    by (simp add: demo_env_def flaky_Series_def)
  note r = metricExists_failure_not_cached [OF h1 h2]
  have c1: "fst (metricExists ?env ''flaky'' (start (0::nat)))
       = Inl (Wrapf (Foreign ''connection refused'') ''failed to get metric %q'' [''flaky''])"
    by (rule r [THEN conjunct1])
  have c2: "metrics (snd (metricExists ?env ''flaky'' (start (0::nat)))) = metrics (start (0::nat))"
    by (rule r [THEN conjunct2, THEN conjunct1])
  note r' = r [THEN conjunct2, THEN conjunct2, THEN conjunct2, rule_format, OF h3]
  from r' have c3: "fst (metricExists ?env ''flaky'' (snd (metricExists ?env ''flaky'' (start (0::nat)))))
       = Inr True"
    by (simp add: Let_def)
  from r' have c4: "metrics (snd (metricExists ?env ''flaky''
            (snd (metricExists ?env ''flaky'' (start (0::nat)))))) ''flaky'' = Some True"
    by (simp add: Let_def)
  show ?thesis by (intro conjI; fact)
qed

text \<open>
  Claim C7. For a name that is not in the cache, \<^verbatim>\<open>metricExists\<close> sends one series
  query for that name, from the zero instant \<^verbatim>\<open>time.Time{}\<close> to the current instant,
  and returns and caches true exactly when the series it got back are not empty.
\<close>

theorem metricExists_unknown_name:
  assumes "metrics s name = None"
    and "api_Series env [name] Time_zero (time_Now env (world s)) (world s) = (r, w')"
  shows "trace (snd (metricExists env name s))
           = trace s @ [CallSeries [name] Time_zero (time_Now env (world s)) r]
       \<and> world (snd (metricExists env name s)) = w'
       \<and> (\<forall>lset. r = Inr lset \<longrightarrow>
             fst (metricExists env name s) = Inr (lset \<noteq> [])
           \<and> metrics (snd (metricExists env name s)) = (metrics s)(name \<mapsto> lset \<noteq> []))"
  using assms by (cases r) (simp_all add: metricExists_def Let_def emit_def index_def)

theorem metricExists_unknown_name_witness:
  "metrics (start (0::nat)) ''up'' = None
   \<and> api_Series (demo_env [] steady_Series by_name) [''up''] Time_zero
        (time_Now (demo_env [] steady_Series by_name) (world (start (0::nat))))
        (world (start (0::nat)))
       = (Inr [[(''__name__'', ''up''), (''job'', ''node'')]], 1)
   \<and> trace (snd (metricExists (demo_env [] steady_Series by_name) ''up'' (start (0::nat))))
       = [CallSeries [''up''] 0 1000 (Inr [[(''__name__'', ''up''), (''job'', ''node'')]])]
   \<and> fst (metricExists (demo_env [] steady_Series by_name) ''up'' (start (0::nat))) = Inr True
   \<and> metrics (snd (metricExists (demo_env [] steady_Series by_name) ''up'' (start (0::nat))))
        ''up'' = Some True"
proof -
  let ?env = "demo_env [] steady_Series by_name"
  have h1: "metrics (start (0::nat)) ''up'' = None" by (simp add: start_def)
  have h2: "api_Series ?env [''up''] Time_zero (time_Now ?env (world (start (0::nat))))
        (world (start (0::nat)))
       = (Inr [[(''__name__'', ''up''), (''job'', ''node'')]], 1)"
    by (simp add: demo_env_def steady_Series_def steady_answer_def start_def)
  have t: "time_Now ?env (world (start (0::nat))) = 1000" "trace (start (0::nat)) = []"
    "Time_zero = 0"
    by (simp_all add: demo_env_def start_def Time_zero_def)
  note r = metricExists_unknown_name [OF h1 h2]
  have c1: "trace (snd (metricExists ?env ''up'' (start (0::nat))))
       = [CallSeries [''up''] 0 1000 (Inr [[(''__name__'', ''up''), (''job'', ''node'')]])]"
    using r [THEN conjunct1] by (simp add: t)
  have c2: "fst (metricExists ?env ''up'' (start (0::nat))) = Inr True"
    using r [THEN conjunct2, THEN conjunct2] by simp
  have c3: "metrics (snd (metricExists ?env ''up'' (start (0::nat)))) ''up'' = Some True"
    using r [THEN conjunct2, THEN conjunct2] by simp
  show ?thesis by (intro conjI; fact)
qed

subsection \<open>run\<close>

text \<open>
  Claim C8. When the address is missing, does not parse as a URL, or has a scheme other
  than http and https, \<^verbatim>\<open>run\<close> returns a configuration error with the world untouched
  and no call sent, and \<^verbatim>\<open>main\<close> prints the error and exits with status 2.
\<close>

theorem bad_address_aborts:
  assumes "promURL = []
         \<or> (\<exists>err. url_Parse env promURL = Inl err)
         \<or> (\<exists>u. url_Parse env promURL = Inr u \<and> Scheme u \<noteq> ''http'' \<and> Scheme u \<noteq> ''https'')"
  shows "\<exists>err. is_config_error err
             \<and> run env promURL w = (Some err, start w)
             \<and> main env False promURL w = (2, emit (Fprintln err) (start w))"
  using assms
  by (auto simp: run_def main_def is_config_error_def split: sum.splits)

theorem bad_address_aborts_witness:
  "url_Parse (demo_env demo_groups steady_Series by_name) ''ftp://x''
     = Inr \<lparr>Scheme = ''ftp'', Rest = ''//x''\<rparr>
   \<and> run (demo_env demo_groups steady_Series by_name) ''ftp://x'' 0
     = (Some (Errorf ''Invalid URL scheme: %s'' [''ftp'']), start 0)
   \<and> fst (main (demo_env demo_groups steady_Series by_name) False ''ftp://x'' 0) = 2
   \<and> trace (snd (main (demo_env demo_groups steady_Series by_name) False ''ftp://x'' 0))
     = [Fprintln (Errorf ''Invalid URL scheme: %s'' [''ftp''])]"
proof -
  let ?env = "demo_env demo_groups steady_Series by_name"
  have h: "url_Parse ?env ''ftp://x'' = Inr \<lparr>Scheme = ''ftp'', Rest = ''//x''\<rparr>"
    by (simp add: demo_env_def go_url_Parse_def isAlpha_def isSchemeChar_def toLower_def)
  then have "\<exists>u. url_Parse ?env ''ftp://x'' = Inr u \<and> Scheme u \<noteq> ''http'' \<and> Scheme u \<noteq> ''https''"
    by simp
  then have "\<exists>err. is_config_error err \<and> run ?env ''ftp://x'' 0 = (Some err, start 0)
      \<and> main ?env False ''ftp://x'' 0 = (2, emit (Fprintln err) (start (0::nat)))"
    using bad_address_aborts [of "''ftp://x''" ?env 0] by blast
  moreover have "run ?env ''ftp://x'' 0 = (Some (Errorf ''Invalid URL scheme: %s'' [''ftp'']), start 0)"
    using h by (simp add: run_def)
  ultimately show ?thesis using h by (auto simp: emit_def start_def)
qed

subsection \<open>The shape of a run\<close>



lemma run_listed:
  "run_setup env promURL = None \<Longrightarrow> api_Rules env w = (Inr res, w') \<Longrightarrow>
   run env promURL w = (None, run_rules env (flatten_queries (Groups res)) (listed w'))"
  by (auto simp: run_setup_def run_def newRuleLinter_def getRules_def listed_def start_def emit_def
        getRules_groups_append split: sum.splits if_splits)

subsection \<open>The cache and the calls\<close>

lemma series_results_append:
  "series_results name (es @ es') = series_results name es @ series_results name es'"
  by (induction name es rule: series_results.induct) simp_all

lemma series_results_output:
  "is_output e \<Longrightarrow> series_results name [e] = []"
  by (cases e) simp_all

lemma cache_inv_emit:
  "cache_inv s \<Longrightarrow> is_output e \<Longrightarrow> cache_inv (emit e s)"
  by (simp add: cache_inv_def emit_def series_results_append series_results_output)

lemma cache_inv_metricExists:
  assumes "cache_inv s"
  shows "cache_inv (snd (metricExists env name s))"
proof (cases "metrics s name")
  case (Some v)
  then show ?thesis using assms by (simp add: metricExists_def)
next
  case None
  obtain r w' where r: "api_Series env [name] Time_zero (time_Now env (world s)) (world s) = (r, w')"
    by (cases "api_Series env [name] Time_zero (time_Now env (world s)) (world s)")
  show ?thesis
  proof (cases r)
    case (Inl err)
    have "\<And>n. series_results n [CallSeries [name] Time_zero (time_Now env (world s)) (Inl err)]
        = (if n = name then [False] else [])" by simp
    then show ?thesis using assms None r Inl
      by (auto simp: metricExists_def Let_def emit_def cache_inv_def series_results_append
            butlast_append)
  next
    case (Inr lset)
    have "\<And>n. series_results n [CallSeries [name] Time_zero (time_Now env (world s)) (Inr lset)]
        = (if n = name then [True] else [])" by simp
    then show ?thesis using assms None r Inr
      by (auto simp: metricExists_def Let_def emit_def cache_inv_def series_results_append
            butlast_append)
  qed
qed

lemma cache_inv_run_metrics:
  "cache_inv s \<Longrightarrow> cache_inv (run_metrics env rule ms s)"
proof (induction ms arbitrary: s)
  case Nil
  then show ?case by simp
next
  case (Cons m ms)
  obtain r s' where r: "metricExists env m s = (r, s')" by (cases "metricExists env m s")
  with Cons.prems cache_inv_metricExists [of s env m] have "cache_inv s'" by simp
  then show ?case using r Cons.IH
    by (cases r) (simp_all add: cache_inv_emit)
qed

lemma cache_inv_run_rule:
  "cache_inv s \<Longrightarrow> cache_inv (run_rule env rule s)"
  by (simp add: run_rule_def cache_inv_emit cache_inv_run_metrics split: sum.splits)

lemma cache_inv_run_rules:
  "cache_inv s \<Longrightarrow> cache_inv (run_rules env rules s)"
  by (induction rules arbitrary: s) (simp_all add: cache_inv_run_rule)

lemma cache_inv_start: "cache_inv (start w)"
  by (simp add: cache_inv_def start_def)

lemma cache_inv_getRules:
  "cache_inv s \<Longrightarrow> cache_inv (snd (getRules env s))"
  by (auto simp: getRules_def cache_inv_def emit_def series_results_append split: prod.splits sum.splits)

lemma cache_inv_run: "cache_inv (snd (run env promURL w))"
proof -
  have "cache_inv ((start w)\<lparr>metrics := Map.empty\<rparr>)"
    by (simp add: cache_inv_def start_def)
  then show ?thesis
    using cache_inv_getRules [of "(start w)\<lparr>metrics := Map.empty\<rparr>" env]
    by (auto simp: run_def newRuleLinter_def cache_inv_start cache_inv_run_rules
          split: sum.splits option.splits prod.splits)
qed

lemma at_most_one_True:
  assumes "True \<notin> set (butlast xs)"
  shows "length (filter id xs) \<le> 1"
proof (cases xs rule: rev_cases)
  case Nil
  then show ?thesis by simp
next
  case (snoc ys y)
  with assms have "filter id ys = []" by (auto simp: filter_empty_conv)
  with snoc show ?thesis by simp
qed

lemma at_most_one_call:
  assumes "False \<notin> set xs" and "True \<notin> set (butlast xs)"
  shows "length xs \<le> 1"
proof (cases xs rule: rev_cases)
  case Nil
  then show ?thesis by simp
next
  case (snoc ys y)
  have "ys = []"
  proof (rule ccontr)
    assume "ys \<noteq> []"
    then obtain b where "b \<in> set ys" by (cases ys) auto
    with snoc assms show False by (cases b) auto
  qed
  with snoc show ?thesis by simp
qed

lemma metricExists_other_name:
  "m \<noteq> name \<Longrightarrow> metrics (snd (metricExists env m s)) name = metrics s name"
  by (simp add: metricExists_def Let_def emit_def split: prod.splits sum.splits)

lemma calls_inv_mono: "calls_inv j name s \<Longrightarrow> metrics s name \<noteq> None \<Longrightarrow> j \<le> k \<Longrightarrow> calls_inv k name s"
  by (auto simp: calls_inv_def split: option.splits)

lemma calls_inv_emit:
  "is_output e \<Longrightarrow> calls_inv j name (emit e s) = calls_inv j name s"
  by (simp add: calls_inv_def emit_def series_results_append series_results_output
        split: option.splits)

lemma calls_inv_metricExists_same:
  assumes "calls_inv j name s"
  shows "calls_inv (Suc j) name (snd (metricExists env name s))"
proof (cases "metrics s name")
  case (Some v)
  with assms show ?thesis
    by (auto simp: metricExists_def calls_inv_def intro: less_SucI)
next
  case None
  obtain r w' where r: "api_Series env [name] Time_zero (time_Now env (world s)) (world s) = (r, w')"
    by (cases "api_Series env [name] Time_zero (time_Now env (world s)) (world s)")
  show ?thesis
  proof (cases r)
    case (Inl err)
    with assms None r show ?thesis
      by (simp add: metricExists_def Let_def emit_def calls_inv_def series_results_append
            replicate_append_same)
  next
    case (Inr lset)
    with assms None r show ?thesis
      by (auto simp: metricExists_def Let_def emit_def calls_inv_def series_results_append)
  qed
qed

lemma series_results_metricExists_other:
  "m \<noteq> name \<Longrightarrow>
   series_results name (trace (snd (metricExists env m s))) = series_results name (trace s)"
  by (simp add: metricExists_def Let_def emit_def series_results_append
        split: prod.splits sum.splits)

lemma calls_inv_metricExists_other:
  "m \<noteq> name \<Longrightarrow> calls_inv j name (snd (metricExists env m s)) = calls_inv j name s"
  by (simp add: calls_inv_def series_results_metricExists_other metricExists_other_name
        split: option.splits)

lemma calls_inv_run_metrics:
  "calls_inv j name s \<Longrightarrow> distinct ms \<Longrightarrow>
   calls_inv (j + (if name \<in> set ms then 1 else 0)) name (run_metrics env rule ms s)"
proof (induction ms arbitrary: s j)
  case Nil
  then show ?case by simp
next
  case (Cons m ms)
  obtain r s' where r: "metricExists env m s = (r, s')" by (cases "metricExists env m s")
  from Cons.prems have d: "distinct ms" "m \<notin> set ms" by simp_all
  have "\<exists>t. (t = s' \<or> (\<exists>e. is_output e \<and> t = emit e s'))
           \<and> run_metrics env rule (m # ms) s = run_metrics env rule ms t"
  proof (cases r)
    case (Inl a)
    have "is_output (Fprintln a)" by simp
    then have "\<exists>e. is_output e \<and> emit (Fprintln a) s' = emit e s'" by blast
    with r Inl show ?thesis
      by (intro exI [of _ "emit (Fprintln a) s'"]) simp
  next
    case (Inr found)
    show ?thesis
    proof (cases found)
      case True
      with r Inr show ?thesis by (intro exI [of _ s']) simp
    next
      case False
      have "is_output (Fprintf not_found_format [rule, m])" by simp
      then have "\<exists>e. is_output e \<and> emit (Fprintf not_found_format [rule, m]) s' = emit e s'"
        by blast
      with r Inr False show ?thesis
        by (intro exI [of _ "emit (Fprintf not_found_format [rule, m]) s'"]) simp
    qed
  qed
  then obtain t where t: "t = s' \<or> (\<exists>e. is_output e \<and> t = emit e s')"
    and next_state: "run_metrics env rule (m # ms) s = run_metrics env rule ms t"
    by blast
  show ?case
  proof (cases "m = name")
    case True
    from calls_inv_metricExists_same [OF Cons.prems(1), of env] r True
    have "calls_inv (Suc j) name s'" by simp
    with t have "calls_inv (Suc j) name t"
      by (auto simp: calls_inv_emit)
    from Cons.IH [OF this d(1)] next_state d(2) True
    show ?thesis by simp
  next
    case False
    from Cons.prems(1) r False have "calls_inv j name s'"
      using calls_inv_metricExists_other [of m name j env s] by simp
    with t have "calls_inv j name t"
      by (auto simp: calls_inv_emit)
    from Cons.IH [OF this d(1)] next_state False
    show ?thesis by simp
  qed
qed

lemma calls_inv_run_rule:
  assumes "calls_inv j name s"
  shows "calls_inv (j + (if references env rule name then 1 else 0)) name (run_rule env rule s)"
proof (cases "ParseExpr env rule")
  case (Inl err)
  with assms show ?thesis
    by (simp add: run_rule_def getMetrics_def references_def calls_inv_emit)
next
  case (Inr expr)
  from getMetrics_parsed [OF Inr, of "world s"] obtain ms where
    ms: "getMetrics env rule (world s) = Inr ms" "distinct ms" "set ms = metric_names expr"
    by blast
  from calls_inv_run_metrics [OF assms ms(2), of env rule] ms Inr
  show ?thesis by (simp add: run_rule_def references_def)
qed

lemma calls_inv_run_rules:
  "calls_inv j name s \<Longrightarrow>
   calls_inv (j + length (filter (\<lambda>r. references env r name) rules)) name (run_rules env rules s)"
proof (induction rules arbitrary: s j)
  case Nil
  then show ?case by simp
next
  case (Cons rule rules)
  from Cons.IH [OF calls_inv_run_rule [OF Cons.prems, of env rule]]
  show ?case by (cases "references env rule name") (simp_all add: add.assoc)
qed

lemma calls_inv_listed: "calls_inv 0 name (listed w)"
  by (simp add: calls_inv_def listed_def emit_def start_def)

lemma run_calls:
  assumes "promURL \<noteq> []"
    and "url_Parse env promURL = Inr u"
    and "Scheme u = ''http'' \<or> Scheme u = ''https''"
    and "NewClient env promURL = None"
    and "api_Rules env w = (Inr res, w')"
  shows "calls_inv (length (filter (\<lambda>r. references env r name) (flatten_queries (Groups res))))
           name (snd (run env promURL w))"
proof -
  have "run_setup env promURL = None"
    using assms(1-4) by (auto simp: run_setup_def)
  then have "snd (run env promURL w) = run_rules env (flatten_queries (Groups res)) (listed w')"
    using assms(5) by (simp add: run_listed)
  then show ?thesis
    using calls_inv_run_rules [OF calls_inv_listed [of name w'], of env "flatten_queries (Groups res)"]
    by simp
qed

text \<open>
  Claim C1, as amended. In a run, of the series calls sent for one name only the last can
  have succeeded: at most one call per name succeeds and none follows it, so a name none
  of whose checks fails gets at most one call. A check that fails leaves the cache
  without the name, and the call is sent again when the name comes up again: a name that
  the cache does not hold at the end got one call, each failed, for every rule of the
  listing that references it, and a name that the cache holds got failed calls followed by
  one successful call, no more calls than rules reference it. Once the cache holds a
  name, \<^verbatim>\<open>metricExists\<close> returns the cached verdict and leaves the state, and so
  the calls, as they were.
\<close>

theorem one_successful_check_per_name:
  "True \<notin> set (butlast (series_results name (trace (snd (run env promURL w)))))
   \<and> length (filter id (series_results name (trace (snd (run env promURL w))))) \<le> 1
   \<and> (False \<notin> set (series_results name (trace (snd (run env promURL w)))) \<longrightarrow>
        length (series_results name (trace (snd (run env promURL w)))) \<le> 1)
   \<and> (\<forall>s v. metrics s name = Some v \<longrightarrow> metricExists env name s = (Inr v, s))
   \<and> (\<forall>s err w1. metrics s name = None
          \<and> api_Series env [name] Time_zero (time_Now env (world s)) (world s) = (Inl err, w1) \<longrightarrow>
        metrics (snd (metricExists env name s)) name = None
      \<and> series_results name (trace (snd (metricExists env name s)))
          = series_results name (trace s) @ [False])
   \<and> (\<forall>u res w'. promURL \<noteq> [] \<and> url_Parse env promURL = Inr u
          \<and> (Scheme u = ''http'' \<or> Scheme u = ''https'')
          \<and> NewClient env promURL = None \<and> api_Rules env w = (Inr res, w') \<longrightarrow>
        (metrics (snd (run env promURL w)) name = None \<longrightarrow>
           series_results name (trace (snd (run env promURL w)))
             = replicate (length (filter (\<lambda>r. references env r name)
                                     (flatten_queries (Groups res)))) False)
      \<and> (metrics (snd (run env promURL w)) name \<noteq> None \<longrightarrow>
           (\<exists>i < length (filter (\<lambda>r. references env r name) (flatten_queries (Groups res))).
              series_results name (trace (snd (run env promURL w)))
                = replicate i False @ [True])))"
proof -
  have a: "True \<notin> set (butlast (series_results name (trace (snd (run env promURL w)))))"
    using cache_inv_run [of env promURL w] by (simp add: cache_inv_def)
  have b: "length (series_results name (trace (snd (run env promURL w)))) \<le> 1"
    if "False \<notin> set (series_results name (trace (snd (run env promURL w))))"
    using that a by (rule at_most_one_call)
  have c: "\<forall>s v. metrics s name = Some v \<longrightarrow> metricExists env name s = (Inr v, s)"
    by (simp add: metricExists_def index_def)
  have d: "metrics (snd (metricExists env name s)) name = None
      \<and> series_results name (trace (snd (metricExists env name s)))
          = series_results name (trace s) @ [False]"
    if "metrics s name = None"
      "api_Series env [name] Time_zero (time_Now env (world s)) (world s) = (Inl err, w1)"
    for s err w1
    using that by (simp add: metricExists_def Let_def emit_def series_results_append)
  have e: "(metrics (snd (run env promURL w)) name = None \<longrightarrow>
           series_results name (trace (snd (run env promURL w)))
             = replicate (length (filter (\<lambda>r. references env r name)
                                     (flatten_queries (Groups res)))) False)
      \<and> (metrics (snd (run env promURL w)) name \<noteq> None \<longrightarrow>
           (\<exists>i < length (filter (\<lambda>r. references env r name) (flatten_queries (Groups res))).
              series_results name (trace (snd (run env promURL w)))
                = replicate i False @ [True]))"
    if "promURL \<noteq> []" "url_Parse env promURL = Inr u"
      "Scheme u = ''http'' \<or> Scheme u = ''https''"
      "NewClient env promURL = None" "api_Rules env w = (Inr res, w')"
    for u res w'
    using run_calls [OF that, of name]
    by (auto simp: calls_inv_def split: option.splits)
  from a at_most_one_True [OF a] b c d e show ?thesis by blast
qed

theorem one_successful_check_per_name_witness:
  "metrics ((start (0::nat))\<lparr>metrics := [''up'' \<mapsto> True]\<rparr>) ''up'' = Some True
   \<and> metricExists (demo_env shared_rules steady_Series by_name) ''up''
         ((start 0)\<lparr>metrics := [''up'' \<mapsto> True]\<rparr>)
       = (Inr True, (start 0)\<lparr>metrics := [''up'' \<mapsto> True]\<rparr>)
   \<and> ''http://x'' \<noteq> []
   \<and> url_Parse (demo_env shared_rules steady_Series by_name) ''http://x''
       = Inr \<lparr>Scheme = ''http'', Rest = ''//x''\<rparr>
   \<and> NewClient (demo_env shared_rules steady_Series by_name) ''http://x'' = None
   \<and> api_Rules (demo_env shared_rules steady_Series by_name) 0
       = (Inr \<lparr>Groups = shared_rules\<rparr>, 0)
   \<and> length (filter (\<lambda>r. references (demo_env shared_rules steady_Series by_name) r ''errors'')
         (flatten_queries shared_rules)) = 2
   \<and> series_results ''errors''
         (trace (snd (run (demo_env shared_rules steady_Series by_name) ''http://x'' 0)))
       = [True]
   \<and> length (filter id (series_results ''errors''
         (trace (snd (run (demo_env shared_rules steady_Series by_name) ''http://x'' 0)))))
       \<le> 1
   \<and> (\<exists>i<2. series_results ''errors''
         (trace (snd (run (demo_env shared_rules steady_Series by_name) ''http://x'' 0)))
       = replicate i False @ [True])
   \<and> length (filter (\<lambda>r. references (demo_env shared_rules steady_Series by_name) r ''flaky'')
         (flatten_queries shared_rules)) = 2
   \<and> metrics (snd (run (demo_env shared_rules steady_Series by_name) ''http://x'' 0)) ''flaky''
       = None
   \<and> series_results ''flaky''
         (trace (snd (run (demo_env shared_rules steady_Series by_name) ''http://x'' 0)))
       = [False, False]"
proof -
  let ?env = "demo_env shared_rules steady_Series by_name"
  let ?s = "(start (0::nat))\<lparr>metrics := [''up'' \<mapsto> True]\<rparr>"
  let ?final = "snd (run ?env ''http://x'' 0)"
  note r = one_successful_check_per_name [of "''up''" ?env "''http://x''" 0]
  note e = one_successful_check_per_name [of "''errors''" ?env "''http://x''" 0]
  note f = one_successful_check_per_name [of "''flaky''" ?env "''http://x''" 0]
  have h: "metrics ?s ''up'' = Some True" by simp
  have c1: "metricExists ?env ''up'' ?s = (Inr True, ?s)"
    using r h by blast
  have h1: "''http://x'' \<noteq> []" by simp
  have h2: "url_Parse ?env ''http://x'' = Inr \<lparr>Scheme = ''http'', Rest = ''//x''\<rparr>"
    by (simp add: demo_env_def go_url_Parse_def isAlpha_def isSchemeChar_def toLower_def)
  have h3: "Scheme \<lparr>Scheme = ''http'', Rest = ''//x''\<rparr> = ''http''
          \<or> Scheme \<lparr>Scheme = ''http'', Rest = ''//x''\<rparr> = ''https''"
    by simp
  have h4: "NewClient ?env ''http://x'' = None" by (simp add: demo_env_def)
  have h5: "api_Rules ?env 0 = (Inr \<lparr>Groups = shared_rules\<rparr>, 0)"
    by (simp add: demo_env_def)
  have l: "flatten_queries shared_rules
      = [''sum(errors) / sum(errors offset 1h)'', ''flaky + errors'', ''absent(flaky)'']"
    by (simp add: flatten_queries_def shared_rules_def List.map_filter_simps)
  have p: "ParseExpr ?env = demo_ParseExpr" by (simp add: demo_env_def)
  have k1: "length (filter (\<lambda>r. references ?env r ''errors'') (flatten_queries shared_rules)) = 2"
    by (simp add: l references_def p demo_ParseExpr_def metric_names_def)
  have k2: "length (filter (\<lambda>r. references ?env r ''flaky'') (flatten_queries shared_rules)) = 2"
    by (simp add: l references_def p demo_ParseExpr_def metric_names_def)
  have m1: "metrics ?final ''errors'' \<noteq> None"
    by (simp add: run_defs demo_defs shared_rules_def)
  have m2: "metrics ?final ''flaky'' = None"
    by (simp add: run_defs demo_defs shared_rules_def)
  note e' = e [THEN conjunct2, THEN conjunct2, THEN conjunct2, THEN conjunct2, THEN conjunct2,
      rule_format, of "\<lparr>Scheme = ''http'', Rest = ''//x''\<rparr>" "\<lparr>Groups = shared_rules\<rparr>" 0]
  note f' = f [THEN conjunct2, THEN conjunct2, THEN conjunct2, THEN conjunct2, THEN conjunct2,
      rule_format, of "\<lparr>Scheme = ''http'', Rest = ''//x''\<rparr>" "\<lparr>Groups = shared_rules\<rparr>" 0]
  have c2: "series_results ''errors'' (trace ?final) = [True]"
    by (simp add: run_defs demo_defs shared_rules_def)
  have c2a: "length (filter id (series_results ''errors'' (trace ?final))) \<le> 1"
    by (rule e [THEN conjunct2, THEN conjunct1])
  have c2b: "\<exists>i<2. series_results ''errors'' (trace ?final) = replicate i False @ [True]"
    using e' h1 h2 h3 h4 h5 m1 k1 by simp
  have c3: "series_results ''flaky'' (trace ?final) = [False, False]"
    using f' h1 h2 h3 h4 h5 m2 k2 by (simp add: numeral_2_eq_2)
  show ?thesis by (intro conjI; fact)
qed

text \<open>
  The claim as stated fails: when the backend's check of a name fails, the name is not
  cached, and the next rule that uses the name sends the call again.
\<close>

theorem repeated_check_counterexample:
  "series_results ''flaky''
     (trace (snd (run (demo_env two_flaky_rules steady_Series by_name) ''http://x'' 0)))
   = [False, False]
   \<and> \<not> length (series_results ''flaky''
         (trace (snd (run (demo_env two_flaky_rules steady_Series by_name) ''http://x'' 0))))
       \<le> 1"
proof -
  have "series_results ''flaky''
     (trace (snd (run (demo_env two_flaky_rules steady_Series by_name) ''http://x'' 0)))
   = [False, False]"
    by (simp add: run_defs demo_defs two_flaky_rules_def)
  then show ?thesis by simp
qed

subsection \<open>The driver goes on\<close>























subsection \<open>Runs against a backend whose answers are fixed\<close>



















subsection \<open>Findings\<close>

lemma finding_of_output: "finding_of name e \<Longrightarrow> is_output e"
  by (cases e) simp_all

















end
